theory Spec2Isabelle
  imports Complex_Main
begin

section \<open>Data model of \<^verbatim>\<open>main.py\<close>\<close>

text \<open>
  A Python \<^verbatim>\<open>str\<close> is a sequence of Unicode code points, so it is modelled as a list
  of naturals. A literal of the source is written \<open>lit ''...''\<close>.
\<close>

type_synonym py_str = "nat list"

definition lit :: "string \<Rightarrow> py_str" where
  "lit s = map of_char s"

text \<open>
  An aware \<^verbatim>\<open>datetime\<close> in UTC is its number of microseconds since the epoch, and a
  \<^verbatim>\<open>timedelta\<close> is a number of microseconds; comparison and subtraction of datetimes
  are exact in Python, as they are here. \<^verbatim>\<open>timedelta.total_seconds()\<close> divides the
  microseconds by \<open>10^6\<close>; the quotient is taken in the reals. (Python rounds it to a
  double; the thresholds 300 and 3600 are doubles and every other multiple of a
  microsecond is further from them than the rounding error, so the comparisons of the
  source come out the same.)
\<close>

type_synonym datetime = int
type_synonym timedelta = int

definition total_seconds :: "timedelta \<Rightarrow> real" where
  "total_seconds d = real_of_int d / 1000000"

text \<open>
  The attribute \<^verbatim>\<open>message.server_timestamp\<close>, in milliseconds, as \<^verbatim>\<open>getattr\<close> sees it:
  the attribute may not exist, may hold \<^verbatim>\<open>None\<close>, or hold an integer.
\<close>

datatype py_ts = Absent | PyNone | PyInt int

text \<open>Truthiness of \<^verbatim>\<open>getattr(message, 'server_timestamp', None)\<close>.\<close>

fun truthy_ts :: "py_ts \<Rightarrow> bool" where
  "truthy_ts Absent = False"
| "truthy_ts PyNone = False"
| "truthy_ts (PyInt n) = (n \<noteq> 0)"

section \<open>The staleness filter (\<^verbatim>\<open>on_message\<close>, lines 211 to 232)\<close>

datatype verdict = Discard | Accept

text \<open>
  The chain of early returns between the comment \<^verbatim>\<open>Enhanced stale message detection\<close>
  and the sender test. Its free variables are the two module globals, \<^verbatim>\<open>now\<close>, the raw
  attribute and \<^verbatim>\<open>message_time\<close>. \<open>Discard\<close> is one of the four \<^verbatim>\<open>return\<close>s, \<open>Accept\<close> is
  falling through to line 235.
\<close>

definition stale_filter :: "datetime \<Rightarrow> bool \<Rightarrow> datetime \<Rightarrow> py_ts \<Rightarrow> datetime \<Rightarrow> verdict" where
  "stale_filter BOT_STARTUP_TIME INITIAL_SYNC_COMPLETE now ts message_time =
     (if \<not> truthy_ts ts then Discard
      else if message_time < BOT_STARTUP_TIME then Discard
      else if \<not> INITIAL_SYNC_COMPLETE \<and> total_seconds (now - message_time) > 300 then Discard
      else if total_seconds (now - message_time) > 3600 then Discard
      else Accept)"

text \<open>
  The same chain with the one-hour fallback (line 230 to 232, rule 4 of the decision
  table) taken out. It is not in the source; it is what the filter is compared with.
\<close>

definition stale_filter_without_rule4 ::
  "datetime \<Rightarrow> bool \<Rightarrow> datetime \<Rightarrow> py_ts \<Rightarrow> datetime \<Rightarrow> verdict" where
  "stale_filter_without_rule4 BOT_STARTUP_TIME INITIAL_SYNC_COMPLETE now ts message_time =
     (if \<not> truthy_ts ts then Discard
      else if message_time < BOT_STARTUP_TIME then Discard
      else if \<not> INITIAL_SYNC_COMPLETE \<and> total_seconds (now - message_time) > 300 then Discard
      else Accept)"

section \<open>Objects of the SDK and of the collaborators\<close>

text \<open>
  What the handler reads of \<^verbatim>\<open>message\<close> and \<^verbatim>\<open>room\<close>. Every attribute is read with
  \<^verbatim>\<open>getattr\<close> and a default, so each may be missing (\<open>None\<close>); \<open>msg_str\<close> is
  \<^verbatim>\<open>str(message)\<close>, the default of \<^verbatim>\<open>body\<close>.
\<close>

record message =
  sender :: "py_str option"
  body :: "py_str option"
  msg_str :: py_str
  msgtype :: "py_str option"
  server_timestamp :: py_ts

record room =
  room_id :: py_str
  display_name :: "py_str option"
  name :: "py_str option"

text \<open>
  A raised exception with its \<^verbatim>\<open>str(e)\<close>. \<open>Exception\<close> is an instance of the class
  \<^verbatim>\<open>Exception\<close> (or of a subclass), which \<^verbatim>\<open>except Exception\<close> catches;
  \<open>BaseException\<close> is an instance of \<^verbatim>\<open>BaseException\<close> outside \<^verbatim>\<open>Exception\<close>
  (\<^verbatim>\<open>asyncio.CancelledError\<close>, \<^verbatim>\<open>KeyboardInterrupt\<close>, \<^verbatim>\<open>SystemExit\<close>), which it does
  not catch. A call that may raise returns \<open>exn + 'a\<close>, \<open>Inl\<close> the exception.
\<close>

datatype exn = Exception py_str | BaseException py_str

definition TypeError :: exn where
  "TypeError = Exception (lit ''unsupported operand type(s) for /'')"

text \<open>
  What \<^verbatim>\<open>autonomous_chat.handle_message\<close> returns: a \<^verbatim>\<open>str\<close>; a \<^verbatim>\<open>dict\<close>, of which
  \<^verbatim>\<open>.get('text')\<close> and \<^verbatim>\<open>.get('thread_info')\<close> are read, and of the latter
  \<^verbatim>\<open>.get('event_id')\<close>; or anything else, \<^verbatim>\<open>None\<close> included. An empty \<^verbatim>\<open>dict\<close> is falsy
  and has neither key; a \<^verbatim>\<open>dict\<close> without \<^verbatim>\<open>'text'\<close> is skipped as well, so the two
  are not told apart. A \<^verbatim>\<open>thread_info\<close> that is \<^verbatim>\<open>None\<close> or an empty \<^verbatim>\<open>dict\<close> is
  \<open>None\<close> here.
\<close>

datatype thread_info = ThreadInfo (get_event_id: "py_str option")

datatype response =
    StrResponse py_str
  | DictResponse (get_text: "py_str option") (get_thread_info: "thread_info option")
  | OtherResponse

text \<open>
  The calls the handler and the background task make on their collaborators, in the
  order they are made (calls of \<^verbatim>\<open>logging\<close> and \<^verbatim>\<open>traceback\<close> are left out).
\<close>

datatype action =
    LogMessage py_str "py_str option" py_str py_str py_str "datetime option"
  | LogBotAction py_str "py_str option" py_str
  | HandleMessage room message
  | SendMessage py_str py_str
  | SendThreadedMessage py_str py_str py_str
  | ProcessUrl py_str
  | RunMaintenanceCycle
  | Sleep nat

text \<open>
  Everything outside \<^verbatim>\<open>main.py\<close> that one run of \<^verbatim>\<open>on_message\<close> depends on: the
  configuration, the two module globals, the clock, and how each collaborator answers.
  \<open>datetime_fromtimestamp ms\<close> is \<^verbatim>\<open>datetime.fromtimestamp(ms / 1000, timezone.utc)\<close>,
  which goes through a double and raises outside the years 1 to 9999; it is a
  parameter, so that nothing below depends on how it rounds. \<^verbatim>\<open>send_message\<close> and
  \<^verbatim>\<open>_send_threaded_message\<close> are called at most once in a run, \<^verbatim>\<open>log_bot_action\<close> up to
  twice (with different texts).
\<close>

record world =
  USER_ID :: py_str
  BOT_STARTUP_TIME :: datetime
  INITIAL_SYNC_COMPLETE :: bool
  datetime_now :: datetime
  datetime_fromtimestamp :: "int \<Rightarrow> exn + datetime"
  log_message :: "exn + unit"
  log_bot_action :: "py_str \<Rightarrow> exn + unit"
  handle_message :: "exn + response"
  send_threaded_message :: "exn + bool"
  send_message :: "exn + unit"
  process_url :: "py_str \<Rightarrow> exn + unit"

section \<open>The message handler \<^verbatim>\<open>on_message\<close>\<close>

subsection \<open>Reading the event (lines 171 to 199)\<close>

definition getattr_sender :: "message \<Rightarrow> py_str" where
  "getattr_sender message = (case sender message of Some s \<Rightarrow> s | None \<Rightarrow> lit ''unknown'')"

definition getattr_body :: "message \<Rightarrow> py_str" where
  "getattr_body message = (case body message of Some b \<Rightarrow> b | None \<Rightarrow> msg_str message)"

definition getattr_msgtype :: "message \<Rightarrow> py_str" where
  "getattr_msgtype message = (case msgtype message of Some t \<Rightarrow> t | None \<Rightarrow> lit ''m.text'')"

text \<open>\<^verbatim>\<open>getattr(room, 'display_name', None) or getattr(room, 'name', None)\<close>\<close>

definition room_name :: "room \<Rightarrow> py_str option" where
  "room_name room =
     (case display_name room of
        Some d \<Rightarrow> if d \<noteq> [] then Some d else name room
      | None \<Rightarrow> name room)"

text \<open>Lines 182 to 186: the timestamp handed to the chat logger.\<close>

definition log_timestamp :: "(int \<Rightarrow> exn + datetime) \<Rightarrow> py_ts \<Rightarrow> exn + datetime option" where
  "log_timestamp fromtimestamp ts =
     (case ts of
        PyInt n \<Rightarrow>
          if n \<noteq> 0 then (case fromtimestamp n of Inl x \<Rightarrow> Inl x | Inr d \<Rightarrow> Inr (Some d))
          else Inr None
      | _ \<Rightarrow> Inr None)"

text \<open>
  Line 199: \<^verbatim>\<open>getattr(message, 'server_timestamp', 0) / 1000\<close> converted again. The
  default 0 stands in for a missing attribute only; \<^verbatim>\<open>None / 1000\<close> raises TypeError.
\<close>

definition message_time_of :: "(int \<Rightarrow> exn + datetime) \<Rightarrow> py_ts \<Rightarrow> exn + datetime" where
  "message_time_of fromtimestamp ts =
     (case ts of
        Absent \<Rightarrow> fromtimestamp 0
      | PyNone \<Rightarrow> Inl TypeError
      | PyInt n \<Rightarrow> fromtimestamp n)"

subsection \<open>The autonomous-chat step (lines 240 to 279)\<close>

text \<open>
  Lines 242 to 275, inside the \<^verbatim>\<open>try\<close>: what is sent for a response. An empty string and
  an empty text are falsy.
\<close>

definition deliver_response :: "world \<Rightarrow> room \<Rightarrow> response \<Rightarrow> action list \<times> (exn + unit)" where
  "deliver_response w room autonomous_response =
     (case autonomous_response of
        StrResponse s \<Rightarrow>
          if s = [] then ([], Inr ())
          else ([SendMessage (room_id room) s], send_message w)
      | DictResponse response_text thread_info \<Rightarrow>
          (case response_text of
             None \<Rightarrow> ([], Inr ())
           | Some t \<Rightarrow>
               if t = [] then ([], Inr ())
               else
                 (case thread_info of
                    Some (ThreadInfo (Some event_id)) \<Rightarrow>
                      if event_id \<noteq> [] then
                        (case send_threaded_message w of
                           Inl x \<Rightarrow> ([SendThreadedMessage (room_id room) t event_id], Inl x)
                         | Inr success \<Rightarrow>
                             if \<not> success then
                               ([SendThreadedMessage (room_id room) t event_id,
                                 SendMessage (room_id room) t], send_message w)
                             else ([SendThreadedMessage (room_id room) t event_id], Inr ()))
                      else ([SendMessage (room_id room) t], send_message w)
                  | _ \<Rightarrow> ([SendMessage (room_id room) t], send_message w)))
      | OtherResponse \<Rightarrow> ([], Inr ()))"

text \<open>\<^verbatim>\<open>except Exception as e\<close>: an \<open>Exception\<close> is logged and dropped, anything else goes on.\<close>

fun except_Exception :: "exn \<Rightarrow> exn + unit" where
  "except_Exception (Exception msg) = Inr ()"
| "except_Exception (BaseException msg) = Inl (BaseException msg)"

definition autonomous_chat_step :: "world \<Rightarrow> room \<Rightarrow> message \<Rightarrow> action list \<times> (exn + unit)" where
  "autonomous_chat_step w room message =
     (case handle_message w of
        Inl x \<Rightarrow> ([HandleMessage room message], except_Exception x)
      | Inr autonomous_response \<Rightarrow>
          (case deliver_response w room autonomous_response of
             (sent, Inl x) \<Rightarrow> (HandleMessage room message # sent, except_Exception x)
           | (sent, Inr u) \<Rightarrow> (HandleMessage room message # sent, Inr ())))"

subsection \<open>The URL scan (line 282)\<close>

text \<open>
  The code points for which \<^verbatim>\<open>str.isspace\<close> holds; \<^verbatim>\<open>str.split()\<close> without arguments
  splits at runs of them.
\<close>

definition isspace :: "nat \<Rightarrow> bool" where
  "isspace c \<longleftrightarrow>
     (9 \<le> c \<and> c \<le> 13) \<or> (28 \<le> c \<and> c \<le> 32) \<or> c = 133 \<or> c = 160 \<or> c = 5760 \<or>
     (8192 \<le> c \<and> c \<le> 8202) \<or> c = 8232 \<or> c = 8233 \<or> c = 8239 \<or> c = 8287 \<or> c = 12288"

text \<open>
  \<^verbatim>\<open>body.split()\<close>: skip whitespace, take the run of non-whitespace that follows as a
  word, go on behind it.
\<close>

function split :: "py_str \<Rightarrow> py_str list" where
  "split [] = []"
| "split (c # cs) =
     (if isspace c then split cs
      else (c # takeWhile (\<lambda>x. \<not> isspace x) cs) # split (dropWhile (\<lambda>x. \<not> isspace x) cs))"
  by pat_completeness auto
termination
  by (relation "measure length") (auto simp: length_dropWhile_le less_Suc_eq_le)

definition startswith :: "py_str \<Rightarrow> py_str \<Rightarrow> bool" where
  "startswith word p \<longleftrightarrow> take (length p) word = p"

text \<open>
  \<^verbatim>\<open>next((word for word in body.split() if word.startswith(("http://", "https://"))), None)\<close>;
  \<open>startswith_http\<close> is the condition of the generator.
\<close>

definition startswith_http :: "py_str \<Rightarrow> bool" where
  "startswith_http word \<longleftrightarrow>
     startswith word (lit ''http://'') \<or> startswith word (lit ''https://'')"

definition find_url :: "py_str \<Rightarrow> py_str option" where
  "find_url b = find startswith_http (split b)"

subsection \<open>URL processing (lines 283 to 308)\<close>

text \<open>
  The handler of \<^verbatim>\<open>except Exception as e\<close> at line 302: it logs the failure through the
  chat logger, whose own exception is not caught.
\<close>

fun url_failed :: "world \<Rightarrow> room \<Rightarrow> py_str \<Rightarrow> exn \<Rightarrow> action list \<times> (exn + unit)" where
  "url_failed w room url (Exception msg) =
     ([LogBotAction (room_id room) (room_name room)
         (lit ''Failed to process URL '' @ url @ lit '': '' @ msg)],
      log_bot_action w (lit ''Failed to process URL '' @ url @ lit '': '' @ msg))"
| "url_failed w room url (BaseException msg) = ([], Inl (BaseException msg))"

definition url_step :: "world \<Rightarrow> room \<Rightarrow> py_str \<Rightarrow> action list \<times> (exn + unit)" where
  "url_step w room b =
     (case find_url b of
        None \<Rightarrow> ([], Inr ())
      | Some url \<Rightarrow>
          if url = [] then ([], Inr ())
          else
            (case log_bot_action w (lit ''Processing URL: '' @ url) of
               Inl x \<Rightarrow>
                 ([LogBotAction (room_id room) (room_name room) (lit ''Processing URL: '' @ url)],
                  Inl x)
             | Inr u \<Rightarrow>
                 (case process_url w url of
                    Inl x \<Rightarrow>
                      (case url_failed w room url x of
                         (logged, out) \<Rightarrow>
                           ([LogBotAction (room_id room) (room_name room)
                               (lit ''Processing URL: '' @ url),
                             ProcessUrl url] @ logged, out))
                  | Inr u' \<Rightarrow>
                      (case log_bot_action w (lit ''Successfully processed URL: '' @ url) of
                         Inl x \<Rightarrow>
                           (case url_failed w room url x of
                              (logged, out) \<Rightarrow>
                                ([LogBotAction (room_id room) (room_name room)
                                    (lit ''Processing URL: '' @ url),
                                  ProcessUrl url,
                                  LogBotAction (room_id room) (room_name room)
                                    (lit ''Successfully processed URL: '' @ url)] @ logged, out))
                       | Inr u'' \<Rightarrow>
                           ([LogBotAction (room_id room) (room_name room)
                               (lit ''Processing URL: '' @ url),
                             ProcessUrl url,
                             LogBotAction (room_id room) (room_name room)
                               (lit ''Successfully processed URL: '' @ url)], Inr ())))))"

subsection \<open>The handler\<close>

text \<open>
  Lines 235 to 308, reached by an event that the staleness filter accepted: the sender
  test, the autonomous-chat step, the URL step.
\<close>

definition dispatch :: "world \<Rightarrow> room \<Rightarrow> message \<Rightarrow> action list \<times> (exn + unit)" where
  "dispatch w room message =
     (if getattr_sender message = USER_ID w then ([], Inr ())
      else
        (case autonomous_chat_step w room message of
           (chat, Inl x) \<Rightarrow> (chat, Inl x)
         | (chat, Inr u) \<Rightarrow>
             (case url_step w room (getattr_body message) of
                (urls, out) \<Rightarrow> (chat @ urls, out))))"

text \<open>
  \<^verbatim>\<open>on_message(room, message)\<close>: the calls made, in order, and how the coroutine ends
  (\<open>Inr ()\<close> it returns, \<open>Inl x\<close> the exception \<open>x\<close> leaves it).
\<close>

definition on_message :: "world \<Rightarrow> room \<Rightarrow> message \<Rightarrow> action list \<times> (exn + unit)" where
  "on_message w room message =
     (case log_timestamp (datetime_fromtimestamp w) (server_timestamp message) of
        Inl x \<Rightarrow> ([], Inl x)
      | Inr timestamp \<Rightarrow>
          (case log_message w of
             Inl x \<Rightarrow>
               ([LogMessage (room_id room) (room_name room) (getattr_sender message)
                   (getattr_body message) (getattr_msgtype message) timestamp], Inl x)
           | Inr u \<Rightarrow>
               (case message_time_of (datetime_fromtimestamp w) (server_timestamp message) of
                  Inl x \<Rightarrow>
                    ([LogMessage (room_id room) (room_name room) (getattr_sender message)
                        (getattr_body message) (getattr_msgtype message) timestamp], Inl x)
                | Inr message_time \<Rightarrow>
                    (case stale_filter (BOT_STARTUP_TIME w) (INITIAL_SYNC_COMPLETE w)
                            (datetime_now w) (server_timestamp message) message_time of
                       Discard \<Rightarrow>
                         ([LogMessage (room_id room) (room_name room) (getattr_sender message)
                             (getattr_body message) (getattr_msgtype message) timestamp],
                          Inr ())
                     | Accept \<Rightarrow>
                         (case dispatch w room message of
                            (calls, out) \<Rightarrow>
                              (LogMessage (room_id room) (room_name room)
                                 (getattr_sender message) (getattr_body message)
                                 (getattr_msgtype message) timestamp # calls, out))))))"

section \<open>The background task \<^verbatim>\<open>arxiv_maintenance_task\<close>\<close>

record auto_poster =
  enabled :: bool

text \<open>
  The \<^verbatim>\<open>while True\<close> loop of lines 374 to 381, run for at most \<open>fuel\<close> iterations from
  iteration \<open>i\<close>. \<open>cycle i\<close> is how the \<open>i\<close>-th \<^verbatim>\<open>run_maintenance_cycle()\<close> ends and
  \<open>sleep i\<close> how the \<open>i\<close>-th \<^verbatim>\<open>asyncio.sleep(60 * 60)\<close> ends. The result is \<open>None\<close> when
  the loop is still running after \<open>fuel\<close> iterations and \<open>Some (Inl x)\<close> when the
  exception \<open>x\<close> has left it; the loop has no other exit.
\<close>

fun maintenance_loop ::
  "(nat \<Rightarrow> exn + unit) \<Rightarrow> (nat \<Rightarrow> exn + unit) \<Rightarrow> nat \<Rightarrow> nat \<Rightarrow> action list \<times> (exn + unit) option" where
  "maintenance_loop cycle sleep i 0 = ([], None)"
| "maintenance_loop cycle sleep i (Suc fuel) =
     (case (case cycle i of Inl x \<Rightarrow> except_Exception x | Inr u \<Rightarrow> Inr ()) of
        Inl x \<Rightarrow> ([RunMaintenanceCycle], Some (Inl x))
      | Inr u \<Rightarrow>
          (case sleep i of
             Inl x \<Rightarrow> ([RunMaintenanceCycle, Sleep (60 * 60)], Some (Inl x))
           | Inr u' \<Rightarrow>
               (case maintenance_loop cycle sleep (Suc i) fuel of
                  (calls, out) \<Rightarrow> (RunMaintenanceCycle # Sleep (60 * 60) # calls, out))))"

text \<open>
  \<^verbatim>\<open>arxiv_maintenance_task()\<close>; the argument is \<^verbatim>\<open>getattr(bot, 'arxiv_auto_poster', None)\<close>.
\<close>

definition arxiv_maintenance_task ::
  "auto_poster option \<Rightarrow> (nat \<Rightarrow> exn + unit) \<Rightarrow> (nat \<Rightarrow> exn + unit) \<Rightarrow> nat \<Rightarrow>
     action list \<times> (exn + unit) option" where
  "arxiv_maintenance_task poster cycle sleep fuel =
     (case poster of
        None \<Rightarrow> ([], Some (Inr ()))
      | Some p \<Rightarrow>
          if \<not> enabled p then ([], Some (Inr ()))
          else maintenance_loop cycle sleep 0 fuel)"

section \<open>What a run forwarded\<close>

text \<open>Read off the list of calls: the URLs given to \<^verbatim>\<open>process_url\<close>, in order.\<close>

fun urls_forwarded :: "action list \<Rightarrow> py_str list" where
  "urls_forwarded [] = []"
| "urls_forwarded (ProcessUrl url # calls) = url # urls_forwarded calls"
| "urls_forwarded (a # calls) = urls_forwarded calls"

text \<open>The number of calls of \<^verbatim>\<open>autonomous_chat.handle_message\<close>.\<close>

fun chat_forwards :: "action list \<Rightarrow> nat" where
  "chat_forwards [] = 0"
| "chat_forwards (HandleMessage room message # calls) = Suc (chat_forwards calls)"
| "chat_forwards (a # calls) = chat_forwards calls"

text \<open>
  The messages sent, threaded or not: the calls of \<^verbatim>\<open>_send_threaded_message\<close> and of
  \<^verbatim>\<open>bot.send_message\<close>, in order.
\<close>

fun sends :: "action list \<Rightarrow> action list" where
  "sends [] = []"
| "sends (SendMessage rid txt # calls) = SendMessage rid txt # sends calls"
| "sends (SendThreadedMessage rid txt ev # calls) = SendThreadedMessage rid txt ev # sends calls"
| "sends (a # calls) = sends calls"

text \<open>
  An event is accepted when the handler reaches the autonomous-chat step at line 240:
  the conversions and the chat logger returned, the staleness filter accepted, and the
  sender is not the bot.
\<close>

definition accepted :: "world \<Rightarrow> message \<Rightarrow> bool" where
  "accepted w message \<longleftrightarrow>
     log_message w = Inr () \<and>
     (case message_time_of (datetime_fromtimestamp w) (server_timestamp message) of
        Inl x \<Rightarrow> False
      | Inr message_time \<Rightarrow>
          stale_filter (BOT_STARTUP_TIME w) (INITIAL_SYNC_COMPLETE w) (datetime_now w)
            (server_timestamp message) message_time = Accept) \<and>
     getattr_sender message \<noteq> USER_ID w"

text \<open>
  The number of calls the claim "exactly one of the two collaborators" allows: one of
  \<^verbatim>\<open>handle_message\<close> and none of \<^verbatim>\<open>process_url\<close>, or the other way round.
\<close>

definition forwarded_to_exactly_one :: "action list \<Rightarrow> bool" where
  "forwarded_to_exactly_one calls \<longleftrightarrow>
     (chat_forwards calls = 1 \<and> length (urls_forwarded calls) = 0) \<or>
     (chat_forwards calls = 0 \<and> length (urls_forwarded calls) = 1)"

text \<open>
  A call that returns or raises an instance of \<^verbatim>\<open>Exception\<close>, which is what
  \<^verbatim>\<open>except Exception\<close> can catch.
\<close>

definition catchable :: "exn + 'a \<Rightarrow> bool" where
  "catchable r = (case r of Inl (BaseException msg) \<Rightarrow> False | _ \<Rightarrow> True)"

section \<open>The first URL of a body, in the words of the specification\<close>

text \<open>
  These definitions are not taken from the source. A whitespace-separated token of a
  body is a non-empty stretch without whitespace that has whitespace, or an end of the
  body, on either side; \<open>before\<close> and \<open>after\<close> are what surrounds it. A token starts
  with a scheme when it is \<^verbatim>\<open>http://\<close> or \<^verbatim>\<open>https://\<close> followed by anything. The first
  such token is one with no such token in the part of the body before it.
\<close>

definition whitespace_separated_token :: "py_str \<Rightarrow> py_str \<Rightarrow> py_str \<Rightarrow> bool" where
  "whitespace_separated_token before word after \<longleftrightarrow>
     word \<noteq> [] \<and> (\<forall>c\<in>set word. \<not> isspace c) \<and>
     (before = [] \<or> isspace (last before)) \<and> (after = [] \<or> isspace (hd after))"

definition starts_with_scheme :: "py_str \<Rightarrow> bool" where
  "starts_with_scheme word \<longleftrightarrow>
     (\<exists>rest. word = lit ''http://'' @ rest) \<or> (\<exists>rest. word = lit ''https://'' @ rest)"

definition first_http_token :: "py_str \<Rightarrow> py_str \<Rightarrow> bool" where
  "first_http_token b url \<longleftrightarrow>
     (\<exists>before after.
        b = before @ url @ after \<and> whitespace_separated_token before url after \<and>
        starts_with_scheme url \<and>
        (\<forall>p word q. before = p @ word @ q \<and> whitespace_separated_token p word q \<longrightarrow>
           \<not> starts_with_scheme word))"

section \<open>Example inputs\<close>

text \<open>
  A world in which the clock stands 200 seconds after the startup, the initial sync is
  complete, every conversion is exact and every collaborator returns; the chat
  collaborator answers with a text and a thread anchor, and the threaded send reports
  failure.
\<close>

definition example_world :: world where
  "example_world =
     \<lparr> USER_ID = lit ''@bot:example.org'',
       BOT_STARTUP_TIME = 1000000000,
       INITIAL_SYNC_COMPLETE = True,
       datetime_now = 1200000000,
       datetime_fromtimestamp = (\<lambda>ms. Inr (ms * 1000)),
       log_message = Inr (),
       log_bot_action = (\<lambda>text. Inr ()),
       handle_message =
         Inr (DictResponse (Some (lit ''nice paper'')) (Some (ThreadInfo (Some (lit ''ev1''))))),
       send_threaded_message = Inr False,
       send_message = Inr (),
       process_url = (\<lambda>url. Inr ()) \<rparr>"

text \<open>The same world with both collaborators raising an \<^verbatim>\<open>Exception\<close>.\<close>

definition failing_world :: world where
  "failing_world =
     example_world
       \<lparr> handle_message := Inl (Exception (lit ''chat failed'')),
         process_url := (\<lambda>url. Inl (Exception (lit ''crawl failed''))) \<rparr>"

definition example_room :: room where
  "example_room = \<lparr> room_id = lit ''!room:example.org'', display_name = None, name = None \<rparr>"

text \<open>A message of another user, 100 seconds old, with the body of the scenario.\<close>

definition example_message :: message where
  "example_message =
     \<lparr> sender = Some (lit ''@alice:example.org''),
       body = Some (lit ''check this out https://example.com/paper thanks''),
       msg_str = [],
       msgtype = None,
       server_timestamp = PyInt 1100000 \<rparr>"

text \<open>
  The same message sent by the bot itself, the same message without the attribute
  \<^verbatim>\<open>server_timestamp\<close>, and the same message with the attribute set to \<^verbatim>\<open>None\<close>.
\<close>

definition own_message :: message where
  "own_message = example_message \<lparr> sender := Some (lit ''@bot:example.org'') \<rparr>"

definition unstamped_message :: message where
  "unstamped_message = example_message \<lparr> server_timestamp := Absent \<rparr>"

definition none_message :: message where
  "none_message = example_message \<lparr> server_timestamp := PyNone \<rparr>"

section \<open>Properties of the staleness filter\<close>

lemma total_seconds_mono: "total_seconds d > 3600 \<Longrightarrow> total_seconds d > 300"
  by (simp add: total_seconds_def)

text \<open>
  C2. During the initial sync (\<^verbatim>\<open>INITIAL_SYNC_COMPLETE\<close> false), an event that carries a
  timestamp \<open>t\<close> with \<open>t \<ge> startup_time\<close> is discarded when \<open>now - t\<close> is more than 300
  seconds and accepted when it is at most 300 seconds. An event carries a timestamp
  when rule 1 does not fire, that is when the attribute is truthy.
\<close>

theorem initial_sync_window_300:
  assumes "truthy_ts ts" and "startup \<le> t"
  shows "(total_seconds (now - t) > 300 \<longrightarrow>
            stale_filter startup False now ts t = Discard) \<and>
         (total_seconds (now - t) \<le> 300 \<longrightarrow>
            stale_filter startup False now ts t = Accept)"
  using assms by (auto simp: stale_filter_def dest: total_seconds_mono)

theorem initial_sync_window_300_witness:
  "stale_filter 1000000000 False 1400000001 (PyInt 1100000) 1100000000 = Discard \<and>
   stale_filter 1000000000 False 1400000000 (PyInt 1100000) 1100000000 = Accept"
proof -
  have a: "truthy_ts (PyInt 1100000)" by simp
  have b: "(1000000000::int) \<le> 1100000000" by simp
  have c: "total_seconds (1400000001 - 1100000000) > 300"
    by (simp add: total_seconds_def)
  have d: "total_seconds (1400000000 - 1100000000) \<le> 300"
    by (simp add: total_seconds_def)
  from initial_sync_window_300 [OF a b, of 1400000001] c
  have "stale_filter 1000000000 False 1400000001 (PyInt 1100000) 1100000000 = Discard"
    by blast
  moreover from initial_sync_window_300 [OF a b, of 1400000000] d
  have "stale_filter 1000000000 False 1400000000 (PyInt 1100000) 1100000000 = Accept"
    by blast
  ultimately show ?thesis by blast
qed

text \<open>
  C3. Once the initial sync is complete, an event that carries a timestamp \<open>t\<close> with
  \<open>t \<ge> startup_time\<close> is discarded when \<open>now - t\<close> is more than 3600 seconds and
  accepted when it is at most 3600 seconds.
\<close>

theorem steady_state_window_3600:
  assumes "truthy_ts ts" and "startup \<le> t"
  shows "(total_seconds (now - t) > 3600 \<longrightarrow>
            stale_filter startup True now ts t = Discard) \<and>
         (total_seconds (now - t) \<le> 3600 \<longrightarrow>
            stale_filter startup True now ts t = Accept)"
  using assms by (auto simp: stale_filter_def)

theorem steady_state_window_3600_witness:
  "stale_filter 1000000000 True 4700000001 (PyInt 1100000) 1100000000 = Discard \<and>
   stale_filter 1000000000 True 4700000000 (PyInt 1100000) 1100000000 = Accept"
proof -
  have a: "truthy_ts (PyInt 1100000)" by simp
  have b: "(1000000000::int) \<le> 1100000000" by simp
  have c: "total_seconds (4700000001 - 1100000000) > 3600"
    by (simp add: total_seconds_def)
  have d: "total_seconds (4700000000 - 1100000000) \<le> 3600"
    by (simp add: total_seconds_def)
  from steady_state_window_3600 [OF a b, of 4700000001] c
  have "stale_filter 1000000000 True 4700000001 (PyInt 1100000) 1100000000 = Discard"
    by blast
  moreover from steady_state_window_3600 [OF a b, of 4700000000] d
  have "stale_filter 1000000000 True 4700000000 (PyInt 1100000) 1100000000 = Accept"
    by blast
  ultimately show ?thesis by blast
qed

text \<open>
  C5. An event whose timestamp is present and lies before the startup time is
  discarded, whatever the sync flag and whatever its age.
\<close>

theorem before_startup_discarded:
  assumes "t < startup"
  shows "stale_filter startup sync now ts t = Discard"
  using assms by (simp add: stale_filter_def)

theorem before_startup_discarded_witness:
  "stale_filter 1000000000 True 1000000001 (PyInt 999999) 999999000 = Discard \<and>
   stale_filter 1000000000 False 1000000001 (PyInt 999999) 999999000 = Discard"
proof -
  have a: "(999999000::int) < 1000000000" by simp
  show ?thesis
    using before_startup_discarded [OF a, of True 1000000001 "PyInt 999999"]
      before_startup_discarded [OF a, of False 1000000001 "PyInt 999999"]
    by simp
qed

text \<open>
  C9. While \<^verbatim>\<open>INITIAL_SYNC_COMPLETE\<close> is false, the filter without rule 4 gives the same
  verdict as the filter on every input; and an event that passes rules 1 to 3, being at
  most 300 seconds old, is accepted: the 3600 second test does not discard it.
\<close>

theorem rule4_redundant_during_initial_sync:
  "stale_filter_without_rule4 startup False now ts t = stale_filter startup False now ts t \<and>
   (truthy_ts ts \<and> startup \<le> t \<and> total_seconds (now - t) \<le> 300 \<longrightarrow>
      stale_filter startup False now ts t = Accept)"
  by (auto simp: stale_filter_def stale_filter_without_rule4_def dest: total_seconds_mono)

theorem rule4_redundant_during_initial_sync_witness:
  "stale_filter_without_rule4 1000000000 False 1400000000 (PyInt 1100000) 1100000000 = Accept \<and>
   stale_filter 1000000000 False 1400000000 (PyInt 1100000) 1100000000 = Accept"
proof -
  have "stale_filter_without_rule4 1000000000 False 1400000000 (PyInt 1100000) 1100000000 = Accept"
    by (simp add: stale_filter_without_rule4_def total_seconds_def)
  with rule4_redundant_during_initial_sync [of 1000000000 1400000000 "PyInt 1100000" 1100000000]
  show ?thesis by simp
qed

section \<open>The URL scan finds the first token with a scheme\<close>

lemma startswith_iff: "startswith word p \<longleftrightarrow> (\<exists>rest. word = p @ rest)"
proof
  assume "startswith word p"
  then have "word = p @ drop (length p) word"
    by (metis append_take_drop_id startswith_def)
  then show "\<exists>rest. word = p @ rest" ..
next
  assume "\<exists>rest. word = p @ rest"
  then show "startswith word p" by (auto simp: startswith_def)
qed

lemma startswith_http_iff: "startswith_http word \<longleftrightarrow> starts_with_scheme word"
  by (simp add: startswith_http_def starts_with_scheme_def startswith_iff)

lemma split_word:
  assumes "word \<noteq> []" and "\<forall>c\<in>set word. \<not> isspace c" and "after = [] \<or> isspace (hd after)"
  shows "split (word @ after) = word # split after"
proof -
  from assms(1) obtain c cs where w: "word = c # cs" by (cases word) auto
  have tw: "takeWhile (\<lambda>x. \<not> isspace x) after = []"
    using assms(3) by (cases after) auto
  have dw: "dropWhile (\<lambda>x. \<not> isspace x) after = after"
    using assms(3) by (cases after) auto
  have "takeWhile (\<lambda>x. \<not> isspace x) (cs @ after) = cs"
    using assms(2) w tw by (simp add: takeWhile_append2)
  moreover have "dropWhile (\<lambda>x. \<not> isspace x) (cs @ after) = after"
    using assms(2) w dw by (simp add: dropWhile_append2)
  moreover have "\<not> isspace c" using assms(2) w by simp
  ultimately show ?thesis using w by simp
qed

lemma split_append:
  "before = [] \<or> isspace (last before) \<Longrightarrow> split (before @ rest) = split before @ split rest"
proof (induction before rule: split.induct)
  case 1
  then show ?case by simp
next
  case (2 c cs)
  show ?case
  proof (cases "isspace c")
    case True
    with 2 show ?thesis by (auto split: if_splits)
  next
    case False
    with "2.prems" have ne: "cs \<noteq> []" and sp: "isspace (last cs)" by (auto split: if_splits)
    then have mem: "last cs \<in> set cs" by simp
    let ?P = "\<lambda>x. \<not> isspace x"
    have tw: "takeWhile ?P (cs @ rest) = takeWhile ?P cs"
      using mem sp by (intro takeWhile_append1 [of "last cs"]) auto
    have dw: "dropWhile ?P (cs @ rest) = dropWhile ?P cs @ rest"
      using mem sp by (intro dropWhile_append1 [of "last cs"]) auto
    have dne: "dropWhile ?P cs \<noteq> []"
      using mem sp by auto
    have "last (takeWhile ?P cs @ dropWhile ?P cs) = last (dropWhile ?P cs)"
      using dne by (rule last_appendR)
    then have "isspace (last (dropWhile ?P cs))" using sp by simp
    with "2.IH"(2) [OF False] have "split (dropWhile ?P cs @ rest) = split (dropWhile ?P cs) @ split rest"
      by simp
    with False tw dw show ?thesis by simp
  qed
qed

lemma split_token:
  assumes "whitespace_separated_token before word after"
  shows "split (before @ word @ after) = split before @ word # split after"
  using assms by (simp add: whitespace_separated_token_def split_append split_word)

lemma split_decompose:
  "split b = ws1 @ word # ws2 \<Longrightarrow>
   \<exists>before after. b = before @ word @ after \<and> whitespace_separated_token before word after \<and>
      split before = ws1 \<and> split after = ws2"
proof (induction b arbitrary: ws1 rule: split.induct)
  case 1
  then show ?case by simp
next
  case (2 c cs)
  let ?P = "\<lambda>x. \<not> isspace x"
  show ?case
  proof (cases "isspace c")
    case True
    with "2.prems" have "split cs = ws1 @ word # ws2" by simp
    from "2.IH"(1) [OF True this] obtain before after where
      h: "cs = before @ word @ after" "whitespace_separated_token before word after"
         "split before = ws1" "split after = ws2" by blast
    have "whitespace_separated_token (c # before) word after"
      using h(2) True by (auto simp: whitespace_separated_token_def)
    moreover have "split (c # before) = ws1" using True h(3) by simp
    moreover have "c # cs = (c # before) @ word @ after" using h(1) by simp
    ultimately show ?thesis using h(4) by blast
  next
    case False
    let ?tok = "c # takeWhile ?P cs"
    let ?rest = "dropWhile ?P cs"
    have eq: "?tok # split ?rest = ws1 @ word # ws2" using "2.prems" False by simp
    have tok: "?tok \<noteq> []" "\<forall>x\<in>set ?tok. \<not> isspace x"
      using False by (auto dest: set_takeWhileD)
    have rest: "?rest = [] \<or> isspace (hd ?rest)"
      using hd_dropWhile [of ?P cs] by auto
    have whole: "c # cs = ?tok @ ?rest" by simp
    show ?thesis
    proof (cases ws1)
      case Nil
      with eq have "word = ?tok" "split ?rest = ws2" by auto
      moreover have "whitespace_separated_token [] ?tok ?rest"
        using tok rest by (simp add: whitespace_separated_token_def)
      ultimately show ?thesis using whole Nil
        by (metis append_Nil split.simps(1))
    next
      case (Cons t ws1')
      with eq have "split ?rest = ws1' @ word # ws2" by auto
      from "2.IH"(2) [OF False this] obtain before after where
        h: "?rest = before @ word @ after" "whitespace_separated_token before word after"
           "split before = ws1'" "split after = ws2" by blast
      have bne: "before \<noteq> []"
      proof
        assume "before = []"
        with h(1) h(2) have "?rest \<noteq> []" "\<not> isspace (hd ?rest)"
          by (auto simp: whitespace_separated_token_def)
        with rest show False by simp
      qed
      then have hdb: "isspace (hd before)"
        using rest h(1) by (cases before) auto
      have "whitespace_separated_token (?tok @ before) word after"
        using h(2) bne by (auto simp: whitespace_separated_token_def)
      moreover have "split (?tok @ before) = ws1"
      proof -
        have "split (?tok @ before) = ?tok # split before"
          using hdb by (intro split_word [OF tok(1) tok(2)]) blast
        moreover have "ws1 = ?tok # ws1'" using eq Cons by simp
        ultimately show ?thesis using h(3) by simp
      qed
      moreover have "c # cs = (?tok @ before) @ word @ after"
        using whole h(1) by (metis append.assoc)
      ultimately show ?thesis using h(4) by blast
    qed
  qed
qed

lemma find_Some_decompose:
  "find P xs = Some x \<longleftrightarrow> (\<exists>ys zs. xs = ys @ x # zs \<and> P x \<and> (\<forall>y\<in>set ys. \<not> P y))"
proof (induction xs)
  case Nil
  then show ?case by simp
next
  case (Cons a xs)
  show ?case
  proof (cases "P a")
    case True
    have "(\<exists>ys zs. a # xs = ys @ x # zs \<and> P x \<and> (\<forall>y\<in>set ys. \<not> P y)) \<longleftrightarrow> a = x"
    proof
      assume "\<exists>ys zs. a # xs = ys @ x # zs \<and> P x \<and> (\<forall>y\<in>set ys. \<not> P y)"
      then obtain ys zs where h: "a # xs = ys @ x # zs" "\<forall>y\<in>set ys. \<not> P y" by blast
      with True show "a = x" by (cases ys) auto
    next
      assume "a = x"
      with True show "\<exists>ys zs. a # xs = ys @ x # zs \<and> P x \<and> (\<forall>y\<in>set ys. \<not> P y)"
        by (intro exI [of _ "[]"] exI [of _ xs]) simp
    qed
    with True show ?thesis by auto
  next
    case False
    have "(\<exists>ys zs. a # xs = ys @ x # zs \<and> P x \<and> (\<forall>y\<in>set ys. \<not> P y)) \<longleftrightarrow>
          (\<exists>ys zs. xs = ys @ x # zs \<and> P x \<and> (\<forall>y\<in>set ys. \<not> P y))"
    proof
      assume "\<exists>ys zs. a # xs = ys @ x # zs \<and> P x \<and> (\<forall>y\<in>set ys. \<not> P y)"
      then obtain ys zs where h: "a # xs = ys @ x # zs" "P x" "\<forall>y\<in>set ys. \<not> P y" by blast
      with False obtain ys' where "ys = a # ys'" by (cases ys) auto
      with h show "\<exists>ys zs. xs = ys @ x # zs \<and> P x \<and> (\<forall>y\<in>set ys. \<not> P y)" by auto
    next
      assume "\<exists>ys zs. xs = ys @ x # zs \<and> P x \<and> (\<forall>y\<in>set ys. \<not> P y)"
      then obtain ys zs where h: "xs = ys @ x # zs" "P x" "\<forall>y\<in>set ys. \<not> P y" by blast
      with False show "\<exists>ys zs. a # xs = ys @ x # zs \<and> P x \<and> (\<forall>y\<in>set ys. \<not> P y)"
        by (intro exI [of _ "a # ys"] exI [of _ zs]) simp
    qed
    with False Cons show ?thesis by simp
  qed
qed

lemma find_url_first_http_token: "find_url b = Some url \<longleftrightarrow> first_http_token b url"
proof
  assume "find_url b = Some url"
  then obtain ws1 ws2 where s: "split b = ws1 @ url # ws2" and u: "startswith_http url"
    and n: "\<forall>y\<in>set ws1. \<not> startswith_http y"
    unfolding find_url_def find_Some_decompose by blast
  from split_decompose [OF s] obtain before after where
    h: "b = before @ url @ after" "whitespace_separated_token before url after"
       "split before = ws1" by blast
  have "\<not> starts_with_scheme word"
    if "before = p @ word @ q" "whitespace_separated_token p word q" for p word q
  proof -
    have "split (p @ word @ q) = split p @ word # split q"
      by (rule split_token [OF that(2)])
    then have "word \<in> set (split (p @ word @ q))" by simp
    with that(1) h(3) have "word \<in> set ws1" by simp
    with n show ?thesis by (simp add: startswith_http_iff)
  qed
  with h u show "first_http_token b url"
    unfolding first_http_token_def startswith_http_iff by blast
next
  assume "first_http_token b url"
  then obtain before after where
    h: "b = before @ url @ after" "whitespace_separated_token before url after"
       "starts_with_scheme url"
       "\<forall>p word q. before = p @ word @ q \<and> whitespace_separated_token p word q \<longrightarrow>
           \<not> starts_with_scheme word"
    unfolding first_http_token_def by blast
  have s: "split b = split before @ url # split after"
    using split_token [OF h(2)] h(1) by simp
  have "\<not> startswith_http y" if "y \<in> set (split before)" for y
  proof -
    from that obtain ws1 ws2 where "split before = ws1 @ y # ws2"
      by (auto simp: in_set_conv_decomp)
    from split_decompose [OF this] h(4) show ?thesis
      by (auto simp: startswith_http_iff)
  qed
  with s h(3) show "find_url b = Some url"
    unfolding find_url_def find_Some_decompose startswith_http_iff by blast
qed

lemma find_url_nonempty: "find_url b = Some url \<Longrightarrow> url \<noteq> []"
  by (auto simp: find_url_first_http_token first_http_token_def whitespace_separated_token_def)

section \<open>What each step of the handler calls\<close>

lemma url_failed_calls:
  assumes "url_failed w room url x = (calls, out)"
  shows "urls_forwarded calls = []" and "chat_forwards calls = 0" and "sends calls = []"
  using assms by (cases x; auto)+

lemma urls_forwarded_append: "urls_forwarded (xs @ ys) = urls_forwarded xs @ urls_forwarded ys"
  by (induction xs rule: urls_forwarded.induct) simp_all
lemma chat_forwards_append: "chat_forwards (xs @ ys) = chat_forwards xs + chat_forwards ys"
  by (induction xs rule: chat_forwards.induct) simp_all
lemma sends_append: "sends (xs @ ys) = sends xs @ sends ys"
  by (induction xs rule: sends.induct) simp_all

lemma chat_url_step: "chat_forwards (fst (url_step w room b)) = 0"
  by (auto simp add: url_step_def chat_forwards_append split: option.splits sum.splits prod.splits
      dest: url_failed_calls(2))

lemma sends_url_step: "sends (fst (url_step w room b)) = []"
  by (auto simp add: url_step_def sends_append split: option.splits sum.splits prod.splits
      dest: url_failed_calls(3))

lemma urls_url_step:
  "urls_forwarded (fst (url_step w room b)) =
     (case find_url b of None \<Rightarrow> []
      | Some url \<Rightarrow> if url \<noteq> [] \<and> log_bot_action w (lit ''Processing URL: '' @ url) = Inr () then [url] else [])"
  by (auto simp add: url_step_def urls_forwarded_append split: option.splits sum.splits prod.splits
      dest: url_failed_calls(1))

lemma deliver_response_calls:
  assumes "deliver_response w room resp = (calls, out)"
  shows "urls_forwarded calls = []" and "chat_forwards calls = 0"
  using assms
  by (auto simp add: deliver_response_def split: response.splits option.splits thread_info.splits sum.splits if_splits)

lemma urls_chat_step: "urls_forwarded (fst (autonomous_chat_step w room message)) = []"
  by (auto simp add: autonomous_chat_step_def split: sum.splits prod.splits dest: deliver_response_calls(1))
lemma chat_chat_step: "chat_forwards (fst (autonomous_chat_step w room message)) = 1"
  by (auto simp add: autonomous_chat_step_def split: sum.splits prod.splits dest: deliver_response_calls(2))

lemma stale_filter_Accept_truthy:
  "stale_filter startup sync now ts t = Accept \<Longrightarrow> truthy_ts ts"
  by (simp add: stale_filter_def split: if_splits)

lemma on_message_accepted:
  assumes "accepted w message"
  shows "\<exists>logged. on_message w room message =
           (logged # fst (dispatch w room message), snd (dispatch w room message)) \<and>
           urls_forwarded [logged] = [] \<and> chat_forwards [logged] = 0 \<and> sends [logged] = []"
proof -
  from assms obtain t where
    lm: "log_message w = Inr ()" and
    mt: "message_time_of (datetime_fromtimestamp w) (server_timestamp message) = Inr t" and
    sf: "stale_filter (BOT_STARTUP_TIME w) (INITIAL_SYNC_COMPLETE w) (datetime_now w)
           (server_timestamp message) t = Accept"
    by (auto simp: accepted_def split: sum.splits)
  from sf have "truthy_ts (server_timestamp message)" by (rule stale_filter_Accept_truthy)
  then obtain n where n: "server_timestamp message = PyInt n" "n \<noteq> 0"
    by (cases "server_timestamp message") auto
  with mt have "log_timestamp (datetime_fromtimestamp w) (server_timestamp message) = Inr (Some t)"
    by (simp add: log_timestamp_def message_time_of_def)
  with lm mt sf show ?thesis
    by (simp add: on_message_def split: prod.splits)
qed

lemma on_message_not_accepted:
  assumes "\<not> accepted w message"
  shows "urls_forwarded (fst (on_message w room message)) = []"
    and "chat_forwards (fst (on_message w room message)) = 0"
    and "sends (fst (on_message w room message)) = []"
  using assms
  by (auto simp: on_message_def accepted_def dispatch_def
      split: sum.splits verdict.splits prod.splits if_splits)

lemma dispatch_calls:
  assumes "getattr_sender message \<noteq> USER_ID w"
  shows "chat_forwards (fst (dispatch w room message)) = 1"
    and "urls_forwarded (fst (dispatch w room message)) =
           (if snd (autonomous_chat_step w room message) = Inr ()
            then urls_forwarded (fst (url_step w room (getattr_body message))) else [])"
    and "sends (fst (dispatch w room message)) = sends (fst (autonomous_chat_step w room message))"
    and "snd (dispatch w room message) =
           (case snd (autonomous_chat_step w room message) of
              Inl x \<Rightarrow> Inl x
            | Inr u \<Rightarrow> snd (url_step w room (getattr_body message)))"
  using assms chat_chat_step [of w room message] urls_chat_step [of w room message]
    chat_url_step [of w room "getattr_body message"] sends_url_step [of w room "getattr_body message"]
  by (auto simp: dispatch_def chat_forwards_append urls_forwarded_append sends_append
      split: prod.splits sum.splits)

lemma except_Exception_catchable: "catchable (Inl x :: exn + 'a) \<Longrightarrow> except_Exception x = Inr ()"
  by (cases x) (simp_all add: catchable_def)

lemma chat_step_returns:
  assumes "catchable (handle_message w)" and "catchable (send_message w)"
    and "catchable (send_threaded_message w)"
  shows "snd (autonomous_chat_step w room message) = Inr ()"
proof (cases "handle_message w")
  case (Inl x)
  with assms(1) show ?thesis
    by (simp add: autonomous_chat_step_def except_Exception_catchable)
next
  case (Inr resp)
  obtain calls out where d: "deliver_response w room resp = (calls, out)"
    by (cases "deliver_response w room resp")
  have "out = send_message w \<or> out = Inr () \<or> (\<exists>x. out = Inl x \<and> send_threaded_message w = Inl x)"
    using d by (auto simp: deliver_response_def
        split: response.splits option.splits thread_info.splits sum.splits if_splits)
  then have "catchable out"
    using assms(2,3) by (auto simp: catchable_def)
  then show ?thesis using Inr d
    by (cases out) (simp_all add: autonomous_chat_step_def except_Exception_catchable)
qed

lemma url_step_returns:
  assumes "\<forall>url. catchable (process_url w url)" and "\<forall>text. log_bot_action w text = Inr ()"
  shows "snd (url_step w room b) = Inr ()"
proof -
  have f: "snd (url_failed w room url x) = Inr ()" if "catchable (Inl x :: exn + unit)" for url x
    using that assms(2) by (cases x) (simp_all add: catchable_def)
  have "snd (url_failed w room url x) = Inr ()" if "process_url w url = Inl x" for url x
    using f [of x url] assms(1) that by (metis)
  then show ?thesis using assms(2)
    by (auto simp: url_step_def split: option.splits sum.splits prod.splits dest: arg_cong [where f = snd])
qed

lemma maintenance_loop_runs:
  "\<forall>j<n. catchable (cycle (i + j)) \<and> sleep (i + j) = Inr () \<Longrightarrow>
   maintenance_loop cycle sleep i n =
     (concat (replicate n [RunMaintenanceCycle, Sleep (60 * 60)]), None)"
proof (induction n arbitrary: i)
  case 0
  then show ?case by simp
next
  case (Suc n)
  from Suc.prems have c: "catchable (cycle i)" and s: "sleep i = Inr ()"
    by (metis add.right_neutral zero_less_Suc)+
  have "\<forall>j<n. catchable (cycle (Suc i + j)) \<and> sleep (Suc i + j) = Inr ()"
    using Suc.prems by (metis Suc_less_eq add_Suc_shift)
  from Suc.IH [OF this] have ih: "maintenance_loop cycle sleep (Suc i) n =
     (concat (replicate n [RunMaintenanceCycle, Sleep (60 * 60)]), None)" .
  have "(case cycle i of Inl x \<Rightarrow> except_Exception x | Inr u \<Rightarrow> Inr ()) = Inr ()"
    using c by (cases "cycle i") (simp_all add: except_Exception_catchable)
  with s ih show ?case by simp
qed

section \<open>The example inputs, evaluated\<close>

lemmas example_defs =
  example_world_def failing_world_def example_room_def example_message_def own_message_def
  unstamped_message_def lit_def

lemma example_accepted: "accepted example_world example_message"
  by (simp add: accepted_def example_defs message_time_of_def stale_filter_def total_seconds_def
      getattr_sender_def)

lemma failing_accepted: "accepted failing_world example_message"
  by (simp add: accepted_def example_defs message_time_of_def stale_filter_def total_seconds_def
      getattr_sender_def)

lemma example_find_url:
  "find_url (lit ''check this out https://example.com/paper thanks'') =
     Some (lit ''https://example.com/paper'')"
  by (simp add: find_url_def startswith_http_def startswith_def isspace_def lit_def)

section \<open>Properties of the handler and of the background task\<close>

text \<open>
  C4. An event whose server timestamp is missing or falsy is to be discarded by the
  staleness filter, whatever the clock, the startup time and the sync flag are. The
  handler does so when the attribute does not exist: it logs the message and returns.
  When the attribute holds \<^verbatim>\<open>None\<close>, which is falsy and which lines 184 and 211 test
  for, the handler does not get as far as the filter: \<^verbatim>\<open>None / 1000\<close> at line 199
  raises TypeError, and the exception leaves the handler instead of the event being
  discarded.
\<close>

theorem none_timestamp_raises_before_filter:
  "\<not> truthy_ts (server_timestamp none_message) \<and>
   on_message example_world example_room none_message =
     ([LogMessage (lit ''!room:example.org'') None (lit ''@alice:example.org'')
         (lit ''check this out https://example.com/paper thanks'') (lit ''m.text'') None],
      Inl TypeError) \<and>
   on_message example_world example_room unstamped_message =
     ([LogMessage (lit ''!room:example.org'') None (lit ''@alice:example.org'')
         (lit ''check this out https://example.com/paper thanks'') (lit ''m.text'') None],
      Inr ())"
  by (simp add: on_message_def log_timestamp_def message_time_of_def stale_filter_def
      room_name_def getattr_sender_def getattr_body_def getattr_msgtype_def
      example_world_def example_room_def example_message_def none_message_def
      unstamped_message_def)

text \<open>
  C10. A message whose sender is the bot's own user id is forwarded neither to the
  URL-processing collaborator nor to the autonomous-chat collaborator, and nothing is
  sent for it: the handler returns at line 237 at the latest, before the URL scan. The
  witness is a fresh message of the bot whose body holds an \<^verbatim>\<open>https://\<close> token.
\<close>

theorem own_message_never_forwarded:
  assumes "getattr_sender message = USER_ID w"
  shows "urls_forwarded (fst (on_message w room message)) = [] \<and>
         chat_forwards (fst (on_message w room message)) = 0 \<and>
         sends (fst (on_message w room message)) = []"
proof -
  from assms have "\<not> accepted w message" by (simp add: accepted_def)
  then show ?thesis by (simp add: on_message_not_accepted)
qed

theorem own_message_never_forwarded_witness:
  "getattr_sender own_message = USER_ID example_world \<and>
   find_url (getattr_body own_message) = Some (lit ''https://example.com/paper'') \<and>
   stale_filter (BOT_STARTUP_TIME example_world) (INITIAL_SYNC_COMPLETE example_world)
     (datetime_now example_world) (server_timestamp own_message) 1100000000 = Accept \<and>
   urls_forwarded (fst (on_message example_world example_room own_message)) = [] \<and>
   chat_forwards (fst (on_message example_world example_room own_message)) = 0"
proof -
  have s: "getattr_sender own_message = USER_ID example_world"
    by (simp add: getattr_sender_def own_message_def example_world_def)
  have b: "find_url (getattr_body own_message) = Some (lit ''https://example.com/paper'')"
    using example_find_url by (simp add: getattr_body_def own_message_def example_message_def)
  have f: "stale_filter (BOT_STARTUP_TIME example_world) (INITIAL_SYNC_COMPLETE example_world)
     (datetime_now example_world) (server_timestamp own_message) 1100000000 = Accept"
    by (simp add: stale_filter_def total_seconds_def own_message_def example_message_def
        example_world_def)
  from own_message_never_forwarded [OF s, of example_room] s b f show ?thesis by blast
qed

text \<open>
  C1, as stated, fails: the accepted example message, whose body holds a URL, is
  forwarded to the autonomous-chat collaborator and to the URL-processing collaborator
  in the same run.
\<close>

theorem forwarded_to_exactly_one_counterexample:
  "accepted example_world example_message \<and>
   chat_forwards (fst (on_message example_world example_room example_message)) = 1 \<and>
   urls_forwarded (fst (on_message example_world example_room example_message)) =
     [lit ''https://example.com/paper''] \<and>
   \<not> forwarded_to_exactly_one (fst (on_message example_world example_room example_message))"
proof -
  have ns: "getattr_sender example_message \<noteq> USER_ID example_world"
    by (simp add: example_defs getattr_sender_def)
  have cs: "snd (autonomous_chat_step example_world example_room example_message) = Inr ()"
    by (simp add: autonomous_chat_step_def deliver_response_def example_defs)
  have b: "getattr_body example_message = lit ''check this out https://example.com/paper thanks''"
    by (simp add: getattr_body_def example_message_def)
  have lg: "log_bot_action example_world t = Inr ()" for t
    by (simp add: example_world_def)
  from on_message_accepted [OF example_accepted, of example_room] obtain logged where
    om: "on_message example_world example_room example_message =
           (logged # fst (dispatch example_world example_room example_message),
            snd (dispatch example_world example_room example_message))"
      "urls_forwarded [logged] = []" "chat_forwards [logged] = 0" by blast
  have c: "chat_forwards (fst (on_message example_world example_room example_message)) = 1"
    using om dispatch_calls(1) [OF ns, of example_room]
      chat_forwards_append [of "[logged]" "fst (dispatch example_world example_room example_message)"]
    by simp
  have u: "urls_forwarded (fst (on_message example_world example_room example_message)) =
     [lit ''https://example.com/paper'']"
    using om dispatch_calls(2) [OF ns, of example_room] cs
      urls_forwarded_append [of "[logged]" "fst (dispatch example_world example_room example_message)"]
    by (simp add: urls_url_step b example_find_url lg) (simp add: lit_def)
  show ?thesis using example_accepted c u by (simp add: forwarded_to_exactly_one_def)
qed

text \<open>
  C1, amended. Every accepted event is forwarded to the autonomous-chat collaborator
  exactly once. When its body holds no token that starts with \<^verbatim>\<open>http://\<close> or
  \<^verbatim>\<open>https://\<close>, it is forwarded to the URL-processing collaborator not at all; when it
  holds one, the event is forwarded to the URL-processing collaborator as well, exactly
  once and with the first such token, provided the autonomous-chat step returned and
  the chat logger took the line \<^verbatim>\<open>Processing URL: ...\<close>.
\<close>

theorem accepted_event_forwarded_to_chat_then_url:
  assumes "accepted w message"
  shows "chat_forwards (fst (on_message w room message)) = 1 \<and>
         (find_url (getattr_body message) = None \<longrightarrow>
            urls_forwarded (fst (on_message w room message)) = []) \<and>
         (find_url (getattr_body message) = Some url \<and>
          snd (autonomous_chat_step w room message) = Inr () \<and>
          log_bot_action w (lit ''Processing URL: '' @ url) = Inr () \<longrightarrow>
            urls_forwarded (fst (on_message w room message)) = [url])"
proof -
  from assms have ns: "getattr_sender message \<noteq> USER_ID w"
    by (simp add: accepted_def)
  from on_message_accepted [OF assms, of room] obtain logged where
    om: "on_message w room message =
           (logged # fst (dispatch w room message), snd (dispatch w room message))"
      "urls_forwarded [logged] = []" "chat_forwards [logged] = 0" by blast
  have c: "chat_forwards (fst (on_message w room message)) =
             chat_forwards (fst (dispatch w room message))"
    using om chat_forwards_append [of "[logged]" "fst (dispatch w room message)"] by simp
  have u: "urls_forwarded (fst (on_message w room message)) =
             urls_forwarded (fst (dispatch w room message))"
    using om urls_forwarded_append [of "[logged]" "fst (dispatch w room message)"] by simp
  have "chat_forwards (fst (on_message w room message)) = 1"
    using c dispatch_calls(1) [OF ns] by simp
  moreover have "urls_forwarded (fst (on_message w room message)) = []"
    if "find_url (getattr_body message) = None"
    using that u dispatch_calls(2) [OF ns, of room] by (simp add: urls_url_step)
  moreover have "urls_forwarded (fst (on_message w room message)) = [url]"
    if "find_url (getattr_body message) = Some url"
      "snd (autonomous_chat_step w room message) = Inr ()"
      "log_bot_action w (lit ''Processing URL: '' @ url) = Inr ()"
    using that u dispatch_calls(2) [OF ns, of room] find_url_nonempty [OF that(1)]
    by (simp add: urls_url_step)
  ultimately show ?thesis by blast
qed

theorem accepted_event_forwarded_to_chat_then_url_witness:
  "accepted example_world example_message \<and>
   find_url (getattr_body example_message) = Some (lit ''https://example.com/paper'') \<and>
   chat_forwards (fst (on_message example_world example_room example_message)) = 1 \<and>
   urls_forwarded (fst (on_message example_world example_room example_message)) =
     [lit ''https://example.com/paper'']"
proof -
  have cs: "snd (autonomous_chat_step example_world example_room example_message) = Inr ()"
    by (simp add: autonomous_chat_step_def deliver_response_def example_defs)
  have b: "find_url (getattr_body example_message) = Some (lit ''https://example.com/paper'')"
    using example_find_url by (simp add: getattr_body_def example_message_def)
  have lg: "log_bot_action example_world (lit ''Processing URL: '' @ lit ''https://example.com/paper'') = Inr ()"
    by (simp add: example_world_def)
  show ?thesis
    using accepted_event_forwarded_to_chat_then_url [OF example_accepted, where url = "lit ''https://example.com/paper''"
        and room = example_room]
      example_accepted b cs lg by blast
qed

text \<open>
  C6. The URL handed to \<^verbatim>\<open>process_url\<close> is the first whitespace-separated token of
  the body that starts with \<^verbatim>\<open>http://\<close> or \<^verbatim>\<open>https://\<close>: every URL a run forwards is
  that token, a run forwards at most one, an accepted event with such a token forwards
  it (when the autonomous-chat step returned and the chat logger took the line
  \<^verbatim>\<open>Processing URL: ...\<close>), and a body without such a token forwards none. The scan of
  the source, \<open>find_url\<close>, finds exactly the token that the specification describes,
  and on the body of the scenario it finds \<^verbatim>\<open>https://example.com/paper\<close>.
\<close>

theorem forwarded_url_is_first_http_token:
  "(\<forall>url\<in>set (urls_forwarded (fst (on_message w room message))).
      first_http_token (getattr_body message) url) \<and>
   length (urls_forwarded (fst (on_message w room message))) \<le> 1 \<and>
   (accepted w message \<and> snd (autonomous_chat_step w room message) = Inr () \<and>
    first_http_token (getattr_body message) url \<and>
    log_bot_action w (lit ''Processing URL: '' @ url) = Inr () \<longrightarrow>
      urls_forwarded (fst (on_message w room message)) = [url]) \<and>
   ((\<forall>url. \<not> first_http_token (getattr_body message) url) \<longrightarrow>
      urls_forwarded (fst (on_message w room message)) = []) \<and>
   (find_url b = Some url' \<longleftrightarrow> first_http_token b url') \<and>
   find_url (lit ''check this out https://example.com/paper thanks'') =
     Some (lit ''https://example.com/paper'')"
proof -
  let ?urls = "urls_forwarded (fst (on_message w room message))"
  let ?b = "getattr_body message"
  have cases: "?urls = [] \<or> (\<exists>u. find_url ?b = Some u \<and> ?urls = [u])"
  proof (cases "accepted w message")
    case False
    then show ?thesis by (simp add: on_message_not_accepted)
  next
    case True
    then have ns: "getattr_sender message \<noteq> USER_ID w" by (simp add: accepted_def)
    from on_message_accepted [OF True, of room] obtain logged where
      om: "on_message w room message =
             (logged # fst (dispatch w room message), snd (dispatch w room message))"
        "urls_forwarded [logged] = []" by blast
    have "?urls = urls_forwarded (fst (dispatch w room message))"
      using om urls_forwarded_append [of "[logged]" "fst (dispatch w room message)"] by simp
    then show ?thesis
      using dispatch_calls(2) [OF ns, of room]
      by (auto simp: urls_url_step split: option.splits if_splits)
  qed
  have 1: "\<forall>url\<in>set ?urls. first_http_token ?b url"
    using cases by (auto simp: find_url_first_http_token)
  have 2: "length ?urls \<le> 1" using cases by auto
  have 3: "?urls = [url]"
    if "accepted w message" "snd (autonomous_chat_step w room message) = Inr ()"
      "first_http_token ?b url" "log_bot_action w (lit ''Processing URL: '' @ url) = Inr ()"
  proof -
    from that(1) have ns: "getattr_sender message \<noteq> USER_ID w" by (simp add: accepted_def)
    from that(3) have f: "find_url ?b = Some url" by (simp add: find_url_first_http_token)
    from on_message_accepted [OF that(1), of room] obtain logged where
      om: "on_message w room message =
             (logged # fst (dispatch w room message), snd (dispatch w room message))"
        "urls_forwarded [logged] = []" by blast
    have "?urls = urls_forwarded (fst (dispatch w room message))"
      using om urls_forwarded_append [of "[logged]" "fst (dispatch w room message)"] by simp
    then show ?thesis
      using dispatch_calls(2) [OF ns, of room] that(2,4) f find_url_nonempty [OF f]
      by (simp add: urls_url_step)
  qed
  have 4: "?urls = []" if "\<forall>url. \<not> first_http_token ?b url"
    using cases that by (auto simp: find_url_first_http_token)
  have 6: "find_url (lit ''check this out https://example.com/paper thanks'') =
     Some (lit ''https://example.com/paper'')"
    by (simp add: find_url_def startswith_http_def startswith_def isspace_def lit_def)
  from 1 2 3 4 6 show ?thesis
    using find_url_first_http_token [of b url'] by blast
qed

theorem forwarded_url_is_first_http_token_witness:
  "accepted example_world example_message \<and>
   first_http_token (getattr_body example_message) (lit ''https://example.com/paper'') \<and>
   urls_forwarded (fst (on_message example_world example_room example_message)) =
     [lit ''https://example.com/paper'']"
proof -
  note t = forwarded_url_is_first_http_token [where w = example_world and room = example_room and message = example_message
      and url = "lit ''https://example.com/paper''"
      and b = "lit ''check this out https://example.com/paper thanks''"
      and url' = "lit ''https://example.com/paper''"]
  have b: "getattr_body example_message = lit ''check this out https://example.com/paper thanks''"
    by (simp add: getattr_body_def example_message_def)
  from t have tok: "first_http_token (getattr_body example_message) (lit ''https://example.com/paper'')"
    unfolding b by blast
  have cs: "snd (autonomous_chat_step example_world example_room example_message) = Inr ()"
    by (simp add: autonomous_chat_step_def deliver_response_def example_defs)
  have lg: "log_bot_action example_world (lit ''Processing URL: '' @ lit ''https://example.com/paper'') = Inr ()"
    by (simp add: example_world_def)
  from t example_accepted cs tok lg show ?thesis by blast
qed

text \<open>
  C7. For an accepted event, when the autonomous-chat response carries a text and
  thread metadata naming a parent event: if the threaded send reports failure, the same
  text is sent once more, without thread metadata, after the one threaded send; if it
  reports success, the threaded send is the only send.
\<close>

theorem threaded_failure_falls_back_once:
  assumes "accepted w message"
    and "handle_message w = Inr (DictResponse (Some txt) (Some (ThreadInfo (Some ev))))"
    and "txt \<noteq> []" and "ev \<noteq> []"
  shows "(send_threaded_message w = Inr False \<longrightarrow>
            sends (fst (on_message w room message)) =
              [SendThreadedMessage (room_id room) txt ev, SendMessage (room_id room) txt]) \<and>
         (send_threaded_message w = Inr True \<longrightarrow>
            sends (fst (on_message w room message)) =
              [SendThreadedMessage (room_id room) txt ev])"
proof -
  from assms(1) have ns: "getattr_sender message \<noteq> USER_ID w" by (simp add: accepted_def)
  from on_message_accepted [OF assms(1), of room] obtain logged where
    om: "on_message w room message =
           (logged # fst (dispatch w room message), snd (dispatch w room message))"
      "sends [logged] = []" by blast
  have "sends (fst (on_message w room message)) = sends (fst (dispatch w room message))"
    using om sends_append [of "[logged]" "fst (dispatch w room message)"] by simp
  then have s: "sends (fst (on_message w room message)) =
      sends (fst (autonomous_chat_step w room message))"
    using dispatch_calls(3) [OF ns, of room] by simp
  have "sends (fst (autonomous_chat_step w room message)) =
      [SendThreadedMessage (room_id room) txt ev, SendMessage (room_id room) txt]"
    if "send_threaded_message w = Inr False"
    using that assms(2-4)
    by (simp add: autonomous_chat_step_def deliver_response_def split: sum.splits)
  moreover have "sends (fst (autonomous_chat_step w room message)) =
      [SendThreadedMessage (room_id room) txt ev]"
    if "send_threaded_message w = Inr True"
    using that assms(2-4)
    by (simp add: autonomous_chat_step_def deliver_response_def)
  ultimately show ?thesis using s by simp
qed

theorem threaded_failure_falls_back_once_witness:
  "sends (fst (on_message example_world example_room example_message)) =
     [SendThreadedMessage (room_id example_room) (lit ''nice paper'') (lit ''ev1''),
      SendMessage (room_id example_room) (lit ''nice paper'')] \<and>
   sends (fst (on_message (example_world \<lparr> send_threaded_message := Inr True \<rparr>)
     example_room example_message)) =
     [SendThreadedMessage (room_id example_room) (lit ''nice paper'') (lit ''ev1'')]"
proof -
  let ?w = "example_world \<lparr> send_threaded_message := Inr True \<rparr>"
  have a: "accepted ?w example_message"
    by (simp add: accepted_def example_defs message_time_of_def stale_filter_def
        total_seconds_def getattr_sender_def)
  have h: "handle_message example_world =
      Inr (DictResponse (Some (lit ''nice paper'')) (Some (ThreadInfo (Some (lit ''ev1'')))))"
    "handle_message ?w =
      Inr (DictResponse (Some (lit ''nice paper'')) (Some (ThreadInfo (Some (lit ''ev1'')))))"
    by (simp_all add: example_world_def)
  have n: "lit ''nice paper'' \<noteq> []" "lit ''ev1'' \<noteq> []" by (simp_all add: lit_def)
  have f: "send_threaded_message example_world = Inr False" "send_threaded_message ?w = Inr True"
    by (simp_all add: example_world_def)
  show ?thesis
    using threaded_failure_falls_back_once [OF example_accepted h(1) n, of example_room]
      threaded_failure_falls_back_once [OF a h(2) n, of example_room] f by blast
qed

text \<open>
  C8. An exception (an instance of \<^verbatim>\<open>Exception\<close>, which is what
  \<^verbatim>\<open>except Exception\<close> catches) raised by the autonomous-chat collaborator, by the
  sends of its answer or by URL processing does not leave the message handler: with a
  chat logger that returns, the handler returns on every accepted event. In the same
  way an exception raised by a maintenance cycle does not end the background loop: as
  long as the cycles raise nothing but such exceptions and the sleeps return, the loop
  has run every one of its first \<open>n\<close> iterations, cycle and sleep, and is still
  running, for every \<open>n\<close>.
\<close>

theorem exceptions_caught_in_handler_and_loop:
  "(accepted w message \<and> catchable (handle_message w) \<and> catchable (send_message w) \<and>
    catchable (send_threaded_message w) \<and> (\<forall>url. catchable (process_url w url)) \<and>
    (\<forall>txt. log_bot_action w txt = Inr ()) \<longrightarrow>
      snd (on_message w room message) = Inr ()) \<and>
   (enabled poster \<and> (\<forall>i<n. catchable (cycle i) \<and> sleep i = Inr ()) \<longrightarrow>
      arxiv_maintenance_task (Some poster) cycle sleep n =
        (concat (replicate n [RunMaintenanceCycle, Sleep (60 * 60)]), None))"
proof -
  have "snd (on_message w room message) = Inr ()"
    if a: "accepted w message" and c: "catchable (handle_message w)" "catchable (send_message w)"
      "catchable (send_threaded_message w)" and u: "\<forall>url. catchable (process_url w url)"
      and l: "\<forall>txt. log_bot_action w txt = Inr ()"
  proof -
    from a have ns: "getattr_sender message \<noteq> USER_ID w" by (simp add: accepted_def)
    from on_message_accepted [OF a, of room]
    have "snd (on_message w room message) = snd (dispatch w room message)" by auto
    then show ?thesis
      using dispatch_calls(4) [OF ns, of room] chat_step_returns [OF c, of room message]
        url_step_returns [OF u l, of room "getattr_body message"]
      by simp
  qed
  moreover have "arxiv_maintenance_task (Some poster) cycle sleep n =
        (concat (replicate n [RunMaintenanceCycle, Sleep (60 * 60)]), None)"
    if "enabled poster" "\<forall>i<n. catchable (cycle i) \<and> sleep i = Inr ()"
    using that maintenance_loop_runs [of n cycle 0 sleep]
    by (simp add: arxiv_maintenance_task_def)
  ultimately show ?thesis by blast
qed

theorem exceptions_caught_in_handler_and_loop_witness:
  "handle_message failing_world = Inl (Exception (lit ''chat failed'')) \<and>
   process_url failing_world (lit ''https://example.com/paper'') =
     Inl (Exception (lit ''crawl failed'')) \<and>
   urls_forwarded (fst (on_message failing_world example_room example_message)) =
     [lit ''https://example.com/paper''] \<and>
   snd (on_message failing_world example_room example_message) = Inr () \<and>
   arxiv_maintenance_task (Some \<lparr> enabled = True \<rparr>)
     (\<lambda>i. Inl (Exception (lit ''cycle failed''))) (\<lambda>i. Inr ()) 3 =
     ([RunMaintenanceCycle, Sleep 3600, RunMaintenanceCycle, Sleep 3600,
       RunMaintenanceCycle, Sleep 3600], None)"
proof -
  note t = exceptions_caught_in_handler_and_loop [where w = failing_world and room = example_room and message = example_message
      and poster = "\<lparr> enabled = True \<rparr>" and n = 3
      and cycle = "\<lambda>i. Inl (Exception (lit ''cycle failed''))" and sleep = "\<lambda>i. Inr ()"]
  have c: "catchable (handle_message failing_world)" "catchable (send_message failing_world)"
    "catchable (send_threaded_message failing_world)"
    "\<forall>url. catchable (process_url failing_world url)"
    "\<forall>txt. log_bot_action failing_world txt = Inr ()"
    by (simp_all add: failing_world_def example_world_def catchable_def)
  have l: "enabled \<lparr> enabled = True \<rparr>"
    "\<forall>i<3::nat. catchable (Inl (Exception (lit ''cycle failed'')) :: exn + unit) \<and>
       (Inr () :: exn + unit) = Inr ()"
    by (simp_all add: catchable_def)
  have r: "concat (replicate 3 [RunMaintenanceCycle, Sleep (60 * 60)]) =
      [RunMaintenanceCycle, Sleep 3600, RunMaintenanceCycle, Sleep 3600,
       RunMaintenanceCycle, Sleep 3600]"
    by (simp add: numeral_3_eq_3)
  have h: "handle_message failing_world = Inl (Exception (lit ''chat failed''))"
    "process_url failing_world (lit ''https://example.com/paper'') =
       Inl (Exception (lit ''crawl failed''))"
    by (simp_all add: failing_world_def)
  have u: "urls_forwarded (fst (on_message failing_world example_room example_message)) =
     [lit ''https://example.com/paper'']"
    by (simp add: on_message_def log_timestamp_def message_time_of_def stale_filter_def
        total_seconds_def dispatch_def getattr_sender_def getattr_body_def
        autonomous_chat_step_def url_step_def find_url_def startswith_http_def startswith_def
        isspace_def example_defs)
  from t failing_accepted c l h u show ?thesis unfolding r by blast
qed

end
